theory Spec2Isabelle
  imports Complex_Main
begin

section \<open>Data model\<close>

text \<open>
  Python objects live in a heap and are referred to by reference. A reference is an
  address; two references are the same object exactly when the addresses are equal
  (class \<open>Node\<close> defines no \<open>__eq__\<close>, so \<open>other in self.children\<close> compares by identity).
  Python floats are idealised as real numbers throughout; rounding and overflow of
  the machine representation are outside this development.
\<close>

type_synonym ref = nat

datatype error = ValueError | ZeroDivisionError | IndexError

text \<open>
  The fields of class \<open>Node\<close> (Node.py, lines 26-46). The lists \<open>weights\<close> and
  \<open>biases\<close> are held by value: each unit owns its two lists and the two are different
  list objects. \<open>children\<close> holds references to other units. The field \<open>value\<close> of the
  source is called \<open>node_value\<close>.
\<close>

record Node =
  numInputs :: nat
  weights :: "real list"
  biases :: "real list"
  children :: "ref list"
  sigmoid_value :: real
  node_value :: real

type_synonym heap = "ref \<Rightarrow> Node"

text \<open>Class constant \<open>MAX_MUTATION\<close> (Node.py, line 15) and \<open>math.e\<close>.\<close>

definition MAX_MUTATION :: real where
  "MAX_MUTATION = 0.5"

definition math_e :: real where
  "math_e = exp 1"

section \<open>Construction\<close>

text \<open>
  \<open>Node.__init__\<close> (Node.py, lines 17-46): \<open>numInputs\<close> is taken from the weights, the
  length check raises \<open>ValueError\<close>, and \<open>value\<close> starts at 0.
\<close>

definition Node_init :: "real list \<Rightarrow> real list \<Rightarrow> ref list \<Rightarrow> real \<Rightarrow> error + Node" where
  "Node_init ws bs cs sv =
     (if length ws \<noteq> length bs then Inl ValueError
      else Inr \<lparr>numInputs = length ws, weights = ws, biases = bs, children = cs,
                sigmoid_value = sv, node_value = 0\<rparr>)"

text \<open>The class invariant of spec section 3.\<close>

definition node_inv :: "Node \<Rightarrow> bool" where
  "node_inv self \<longleftrightarrow>
     length (weights self) = numInputs self \<and> length (biases self) = numInputs self"

section \<open>Forward evaluation\<close>

text \<open>
  \<open>Node.sigmoid\<close> (Node.py, lines 93-94). The first division is by \<open>1 + e ** ...\<close>,
  which is at least 1; the second is by \<open>numInputs\<close> and raises when that is 0.
\<close>

definition sigmoid :: "Node \<Rightarrow> real \<Rightarrow> error + real" where
  "sigmoid self num =
     (if numInputs self = 0 then Inl ZeroDivisionError
      else Inr (1 / (1 + math_e powr (-1 * num * sigmoid_value self)) / real (numInputs self)))"

text \<open>
  \<open>Node.__call__\<close> (Node.py, lines 96-108). \<open>map\<close> over three iterables stops at the
  shortest; \<open>sum\<close> adds the terms from the left, starting at 0; an exception in a term
  leaves the object untouched, since the assignment to \<open>value\<close> comes last.
\<close>

fun call_sum :: "Node \<Rightarrow> real \<Rightarrow> real list \<Rightarrow> real list \<Rightarrow> real list \<Rightarrow> error + real" where
  "call_sum self acc (weight # ws) (bias # bs) (num # ns) =
     (case sigmoid self (weight * num + bias) of
        Inl err \<Rightarrow> Inl err
      | Inr y \<Rightarrow> call_sum self (acc + y) ws bs ns)"
| "call_sum self acc _ _ _ = Inr acc"

definition Node_call :: "Node \<Rightarrow> real list \<Rightarrow> error + (real \<times> Node)" where
  "Node_call self nums =
     (case call_sum self 0 (weights self) (biases self) nums of
        Inl err \<Rightarrow> Inl err
      | Inr v \<Rightarrow> Inr (v, self\<lparr>node_value := v\<rparr>))"

section \<open>Gradient step\<close>

text \<open>
  The local variables \<open>a\<close>, \<open>b\<close>, \<open>c\<close> and \<open>d\<close> of \<open>Node.gradientHelper\<close>
  (Node.py, lines 127-130), each as a function of the arguments it depends on.
\<close>

definition gradientHelper_a :: "real \<Rightarrow> real \<Rightarrow> real \<Rightarrow> real" where
  "gradientHelper_a weight bias num = weight * num + bias"

definition gradientHelper_b :: "Node \<Rightarrow> real \<Rightarrow> real \<Rightarrow> real \<Rightarrow> real" where
  "gradientHelper_b self weight bias num =
     math_e powr (- gradientHelper_a weight bias num * sigmoid_value self) + 1"

definition gradientHelper_c :: "Node \<Rightarrow> real \<Rightarrow> real \<Rightarrow> real \<Rightarrow> real" where
  "gradientHelper_c self weight bias num =
     1 / (gradientHelper_b self weight bias num * real (numInputs self))"

definition gradientHelper_d :: "Node \<Rightarrow> real \<Rightarrow> real \<Rightarrow> real \<Rightarrow> real \<Rightarrow> real" where
  "gradientHelper_d self weight bias num goal = (gradientHelper_c self weight bias num - goal)\<^sup>2"

text \<open>
  \<open>Node.gradientHelper\<close> (Node.py, lines 121-135). The result is the pair
  (weight partial, bias partial). Both divisors are products with \<open>numInputs\<close>, so
  the divisions raise \<open>ZeroDivisionError\<close> when the divisor is 0.
\<close>

definition gradientHelper :: "Node \<Rightarrow> real \<Rightarrow> real \<Rightarrow> real \<Rightarrow> real \<Rightarrow> error + (real \<times> real)" where
  "gradientHelper self weight bias num goal =
     (let b = gradientHelper_b self weight bias num in
      if b * real (numInputs self) = 0 then Inl ZeroDivisionError
      else
        let c = gradientHelper_c self weight bias num in
        if b\<^sup>2 * real (numInputs self) = 0 then Inl ZeroDivisionError
        else
          let partialDerivativeRespectBias =
                2 * sigmoid_value self * b * (c - goal) / (b\<^sup>2 * real (numInputs self));
              partialDerivativeRespectWeight = partialDerivativeRespectBias * num
          in Inr (partialDerivativeRespectWeight, partialDerivativeRespectBias))"

text \<open>
  \<open>Node.gradient\<close> (Node.py, lines 110-119). \<open>zip\<close> reads the three lists lazily, so
  round \<open>index\<close> reads \<open>weights[index]\<close>, \<open>biases[index]\<close> and \<open>nums[index]\<close> from the
  lists as they are at that moment, and stops when one of them is exhausted. The
  argument \<open>len\<close> is the local variable \<open>length\<close>; \<open>goal / length\<close> is evaluated inside
  the loop only. The source returns nothing; the model returns the unit as updated.
\<close>

function gradient_loop :: "nat \<Rightarrow> real list \<Rightarrow> real \<Rightarrow> real \<Rightarrow> nat \<Rightarrow> Node \<Rightarrow> error + Node" where
  "gradient_loop len nums goal learnRate index self =
     (if index < length (weights self) \<and> index < length (biases self) \<and> index < length nums then
        (if len = 0 then Inl ZeroDivisionError
         else
           case gradientHelper self (weights self ! index) (biases self ! index) (nums ! index)
                  (goal / real len) of
             Inl err \<Rightarrow> Inl err
           | Inr (weightChange, biasChange) \<Rightarrow>
               let self1 = self\<lparr>weights := (weights self)
                             [index := weights self ! index - weightChange * learnRate]\<rparr>;
                   self2 = self1\<lparr>biases := (biases self1)
                             [index := biases self1 ! index - biasChange * learnRate]\<rparr>
               in gradient_loop len nums goal learnRate (Suc index) self2)
      else Inr self)"
  by pat_completeness auto
termination
  by (relation "measure (\<lambda>(len, nums, goal, learnRate, index, self). length nums - index)") auto

declare gradient_loop.simps [simp del]

definition gradient :: "Node \<Rightarrow> real list \<Rightarrow> real \<Rightarrow> real \<Rightarrow> error + Node" where
  "gradient self nums goal learnRate = gradient_loop (length nums) nums goal learnRate 0 self"

text \<open>
  The update of the claims, in the words of the specification: the bias partial
  \<open>2 * s * b * (c - perExampleGoal) / (b\<^sup>2 * n)\<close> with \<open>a = weight * input + bias\<close>,
  \<open>b = e^(- a * s) + 1\<close> and \<open>c = 1 / (b * n)\<close>.
\<close>

definition spec_dB :: "real \<Rightarrow> nat \<Rightarrow> real \<Rightarrow> real \<Rightarrow> real \<Rightarrow> real \<Rightarrow> real" where
  "spec_dB s n weight bias x perExampleGoal =
     (let a = weight * x + bias;
          b = exp (- a * s) + 1;
          c = 1 / (b * real n)
      in 2 * s * b * (c - perExampleGoal) / (b\<^sup>2 * real n))"

definition spec_dW :: "real \<Rightarrow> nat \<Rightarrow> real \<Rightarrow> real \<Rightarrow> real \<Rightarrow> real \<Rightarrow> real" where
  "spec_dW s n weight bias x perExampleGoal = spec_dB s n weight bias x perExampleGoal * x"

text \<open>
  The lists a unit holds once the pairs below index \<open>k\<close> have received the update of the
  specification and the others are as before.
\<close>

definition weights_after :: "Node \<Rightarrow> real list \<Rightarrow> real \<Rightarrow> real \<Rightarrow> nat \<Rightarrow> real list" where
  "weights_after self nums perExampleGoal learnRate k =
     map (\<lambda>i. if i < k
               then weights self ! i - learnRate *
                      spec_dW (sigmoid_value self) (numInputs self) (weights self ! i)
                        (biases self ! i) (nums ! i) perExampleGoal
               else weights self ! i)
       [0..<length (weights self)]"

definition biases_after :: "Node \<Rightarrow> real list \<Rightarrow> real \<Rightarrow> real \<Rightarrow> nat \<Rightarrow> real list" where
  "biases_after self nums perExampleGoal learnRate k =
     map (\<lambda>i. if i < k
               then biases self ! i - learnRate *
                      spec_dB (sigmoid_value self) (numInputs self) (weights self ! i)
                        (biases self ! i) (nums ! i) perExampleGoal
               else biases self ! i)
       [0..<length (biases self)]"

section \<open>Mutation, children, copy and dump\<close>

text \<open>
  \<open>Node.mutate\<close> (Node.py, lines 48-64). \<open>random.uniform\<close> is not part of the
  repository: the results of its successive calls are a parameter, \<open>draws k\<close> being what
  the \<open>k\<close>-th call of \<open>uniform(-MAX_MUTATION, MAX_MUTATION)\<close> inside this \<open>mutate\<close>
  returns. Each loop runs over \<open>range(len(...))\<close>, fixed when the loop starts; \<open>base\<close>
  is the number of draws made before the loop.
\<close>

fun mutate_loop :: "(nat \<Rightarrow> real) \<Rightarrow> nat \<Rightarrow> nat list \<Rightarrow> real list \<Rightarrow> real list" where
  "mutate_loop draws base [] xs = xs"
| "mutate_loop draws base (index # rest) xs =
     (let change = draws (base + index)
      in mutate_loop draws base rest (xs[index := xs ! index * (1 - change)]))"

definition Node_mutate :: "(nat \<Rightarrow> real) \<Rightarrow> Node \<Rightarrow> Node" where
  "Node_mutate draws self =
     (let self1 = self\<lparr>weights := mutate_loop draws 0 [0..<length (weights self)] (weights self)\<rparr>
      in self1\<lparr>biases := mutate_loop draws (length (weights self)) [0..<length (biases self1)]
                           (biases self1)\<rparr>)"

text \<open>
  On the heap: the unit at address \<open>self\<close> is mutated in place and \<open>return self\<close> hands
  back the reference the method was called on.
\<close>

definition mutate :: "(nat \<Rightarrow> real) \<Rightarrow> heap \<Rightarrow> ref \<Rightarrow> heap \<times> ref" where
  "mutate draws h self = (h(self := Node_mutate draws (h self)), self)"

text \<open>\<open>Node.setChildren\<close> (Node.py, lines 66-72).\<close>

definition setChildren :: "Node \<Rightarrow> ref list \<Rightarrow> Node" where
  "setChildren self newChildren = self\<lparr>children := newChildren\<rparr>"

text \<open>
  \<open>Node.__deepcopy__\<close> (Node.py, lines 142-158): the two lists are copied element by
  element, the children list is passed on as it is, and the copy is built by the
  constructor, so its \<open>value\<close> is 0.
\<close>

definition deepcopy :: "Node \<Rightarrow> error + Node" where
  "deepcopy self =
     (let weightsCopy = map (\<lambda>weight. weight) (weights self);
          biasesCopy = map (\<lambda>bias. bias) (biases self)
      in Node_init weightsCopy biasesCopy (children self) (sigmoid_value self))"

text \<open>\<open>Node.asDict\<close> (Node.py, lines 160-166): a dictionary with two keys.\<close>

definition asDict :: "Node \<Rightarrow> (string \<rightharpoonup> real list)" where
  "asDict self = [''Weights'' \<mapsto> weights self, ''Biases'' \<mapsto> biases self]"

section \<open>Graph queries\<close>

text \<open>\<open>Node.isInChildren\<close> (Node.py, lines 74-81): membership by identity.\<close>

definition isInChildren :: "heap \<Rightarrow> ref \<Rightarrow> ref \<Rightarrow> bool" where
  "isInChildren h self other \<longleftrightarrow> other \<in> set (children (h self))"

text \<open>
  \<open>any(map(f, xs))\<close> evaluates \<open>f\<close> on the elements in order and stops at the first that
  is true. A call that does not return is \<open>None\<close>, and \<open>any\<close> then does not return either.
\<close>

fun any_map :: "('a \<Rightarrow> bool option) \<Rightarrow> 'a list \<Rightarrow> bool option" where
  "any_map f [] = Some False"
| "any_map f (x # xs) =
     (case f x of
        None \<Rightarrow> None
      | Some True \<Rightarrow> Some True
      | Some False \<Rightarrow> any_map f xs)"

text \<open>
  \<open>Node.isConnectedTo\<close> (Node.py, lines 83-91). The recursion has no bound in the
  source and need not end on a cyclic graph, so the model takes the permitted recursion
  depth as fuel: \<open>None\<close> says that the call did not return within that depth.
\<close>

fun isConnectedTo :: "nat \<Rightarrow> heap \<Rightarrow> ref \<Rightarrow> ref \<Rightarrow> bool option" where
  "isConnectedTo 0 h self other = None"
| "isConnectedTo (Suc fuel) h self other =
     (if isInChildren h self other then Some True
      else any_map (\<lambda>child. isConnectedTo fuel h child other) (children (h self)))"

text \<open>The children graph of a heap: an edge from each unit to each of its children.\<close>

definition edges :: "heap \<Rightarrow> (ref \<times> ref) set" where
  "edges h = {(u, v). v \<in> set (children (h u))}"

section \<open>The gradient trainer\<close>

text \<open>
  Class \<open>GradientNetwork\<close> (GradientDescent.py) extends \<open>NeuralNetwork\<close>, which is not
  among the sources. The inherited attributes the trainer reads are fields of the base
  record: the table \<open>nodes\<close> of layers of unit references, \<open>nodesInLayer\<close> and \<open>value\<close>
  (called \<open>net_value\<close>). The inherited forward pass \<open>self(inputs)\<close> is a parameter of the
  functions that call it.
\<close>

record NeuralNetwork =
  nodes :: "ref list list"
  nodesInLayer :: int
  net_value :: real

record GradientNetwork = NeuralNetwork +
  maxIter :: int
  learnRate :: real
  size :: int

text \<open>
  \<open>GradientNetwork.__init__\<close> (GradientDescent.py, lines 7-14), after the call of the
  base constructor, whose result is \<open>base\<close>.
\<close>

definition GradientNetwork_init :: "NeuralNetwork \<Rightarrow> int \<Rightarrow> int \<Rightarrow> int \<Rightarrow> real \<Rightarrow> GradientNetwork" where
  "GradientNetwork_init base nodesInLayer_arg numLayers maxIter_arg learnRate_arg =
     NeuralNetwork.extend base
       \<lparr>maxIter = maxIter_arg, learnRate = learnRate_arg, size = nodesInLayer_arg * numLayers\<rparr>"

text \<open>
  The call \<open>node.gradient(nums, goal, learnRate)\<close> on a reference: the unit at that
  address is updated in place; every other object of the heap stays as it is.
\<close>

definition gradient_at :: "heap \<Rightarrow> ref \<Rightarrow> real list \<Rightarrow> real \<Rightarrow> real \<Rightarrow> error + heap" where
  "gradient_at h node nums goal rate =
     (case gradient (h node) nums goal rate of
        Inl err \<Rightarrow> Inl err
      | Inr node' \<Rightarrow> Inr (h(node := node')))"

text \<open>
  \<open>GradientNetwork.stepGeneration\<close> (GradientDescent.py, lines 44-47). The loop runs
  over \<open>range(self.nodesInLayer)\<close>; \<open>self.nodes[0][index]\<close> raises \<open>IndexError\<close> outside
  the table, \<open>goal / self.size\<close> raises \<open>ZeroDivisionError\<close> for size 0, and an error
  of \<open>gradient\<close> passes through.
\<close>

fun stepGeneration_loop :: "GradientNetwork \<Rightarrow> real list \<Rightarrow> real \<Rightarrow> nat list \<Rightarrow> heap \<Rightarrow> error + heap" where
  "stepGeneration_loop self inputs goal [] h = Inr h"
| "stepGeneration_loop self inputs goal (index # rest) h =
     (case nodes self of
        [] \<Rightarrow> Inl IndexError
      | layer0 # _ \<Rightarrow>
          if length layer0 \<le> index then Inl IndexError
          else
            let node = layer0 ! index in
            if size self = 0 then Inl ZeroDivisionError
            else
              (case gradient_at h node inputs (goal / real_of_int (size self)) (learnRate self) of
                 Inl err \<Rightarrow> Inl err
               | Inr h1 \<Rightarrow> stepGeneration_loop self inputs goal rest h1))"

definition stepGeneration :: "GradientNetwork \<Rightarrow> real list \<Rightarrow> real \<Rightarrow> heap \<Rightarrow> error + heap" where
  "stepGeneration self inputs goal h =
     stepGeneration_loop self inputs goal [0..<nat (nodesInLayer self)] h"

text \<open>
  The training step in the words of the specification: for each of the given units, in
  order, call its gradient routine with the same inputs, goal and learn rate.
\<close>

fun spec_step :: "ref list \<Rightarrow> real list \<Rightarrow> real \<Rightarrow> real \<Rightarrow> heap \<Rightarrow> error + heap" where
  "spec_step [] inputs goal rate h = Inr h"
| "spec_step (unit # units) inputs goal rate h =
     (case gradient_at h unit inputs goal rate of
        Inl err \<Rightarrow> Inl err
      | Inr h1 \<Rightarrow> spec_step units inputs goal rate h1)"

text \<open>
  What the two \<open>print\<close> statements of \<open>evolveTillTolerance\<close> write: the iteration
  and the value, and at the end the percentage and the iteration.
\<close>

datatype printed = PrintValue int real | PrintReached real int

definition MAXIMUM_ITERATION :: int where
  "MAXIMUM_ITERATION = 1000"

text \<open>
  The inherited forward pass \<open>self(inputs)\<close>: it may change the network object and the
  units, or raise.
\<close>

type_synonym forward = "GradientNetwork \<Rightarrow> real list \<Rightarrow> heap \<Rightarrow> error + (GradientNetwork \<times> heap)"

text \<open>
  The \<open>while\<close> loop of \<open>GradientNetwork.evolveTillTolerance\<close> (GradientDescent.py,
  lines 30-40). The result holds the final \<open>iterationCounter\<close>, the network object,
  the heap and the output written so far.
\<close>

function evolve_loop :: "forward \<Rightarrow> real list \<Rightarrow> real \<Rightarrow> real \<Rightarrow> int \<Rightarrow> GradientNetwork \<Rightarrow> heap \<Rightarrow> printed list
    \<Rightarrow> error + (int \<times> GradientNetwork \<times> heap \<times> printed list)" where
  "evolve_loop call inputs goal tolerance iterationCounter self h out =
     (if iterationCounter < MAXIMUM_ITERATION then
        if \<bar>net_value self - goal\<bar> < \<bar>tolerance * goal\<bar>
        then Inr (iterationCounter, self, h, out @ [PrintValue iterationCounter (net_value self)])
        else
          (case call self inputs h of
             Inl err \<Rightarrow> Inl err
           | Inr (self1, h1) \<Rightarrow>
               let out1 = (if iterationCounter mod 5 = 0
                           then out @ [PrintValue iterationCounter (net_value self1)] else out)
               in (case stepGeneration self1 inputs goal h1 of
                     Inl err \<Rightarrow> Inl err
                   | Inr h2 \<Rightarrow>
                       evolve_loop call inputs goal tolerance (iterationCounter + 1) self1 h2 out1))
      else Inr (iterationCounter, self, h, out))"
  by pat_completeness auto
termination
  by (relation "measure (\<lambda>(call, inputs, goal, tolerance, iterationCounter, self, h, out).
        nat (MAXIMUM_ITERATION - iterationCounter))") auto

declare evolve_loop.simps [simp del]

text \<open>
  \<open>GradientNetwork.evolveTillTolerance\<close> (GradientDescent.py, lines 23-42). The last
  \<open>print\<close> divides by \<open>goal\<close>.
\<close>

definition evolveTillTolerance :: "forward \<Rightarrow> GradientNetwork \<Rightarrow> real list \<Rightarrow> real \<Rightarrow> real \<Rightarrow> heap
    \<Rightarrow> error + (int \<times> GradientNetwork \<times> heap \<times> printed list)" where
  "evolveTillTolerance call self inputs goal tolerance h =
     (let tolerance = (if tolerance \<le> 0 then 0.1 else tolerance) in
      case evolve_loop call inputs goal tolerance 0 self h [] of
        Inl err \<Rightarrow> Inl err
      | Inr (iterationCounter, self', h', out) \<Rightarrow>
          if goal = 0 then Inl ZeroDivisionError
          else Inr (iterationCounter, self', h',
                 out @ [PrintReached \<bar>(net_value self' - goal) * 100 / goal\<bar> iterationCounter]))"

section \<open>Theorems\<close>

lemma math_e_powr: "math_e powr x = exp x"
  by (simp add: math_e_def powr_def)

subsection \<open>Construction\<close>

text \<open>
  C6. For weight and bias lists of equal length construction succeeds, and the unit's
  input count is the common length; for lists of unequal length construction raises
  \<open>ValueError\<close> and no unit comes into being, so nothing can be trained.
\<close>

theorem Node_init_validation:
  "(length ws = length bs \<longrightarrow>
      (\<exists>self. Node_init ws bs cs sv = Inr self \<and> numInputs self = length ws \<and>
         numInputs self = length bs \<and> weights self = ws \<and> biases self = bs \<and> node_inv self))
   \<and> (length ws \<noteq> length bs \<longrightarrow> Node_init ws bs cs sv = Inl ValueError)"
  by (simp add: Node_init_def node_inv_def)

theorem Node_init_validation_witness:
  "(\<exists>self. Node_init [1, 2] [0, 0] [] 0.1 = Inr self \<and> numInputs self = 2 \<and> node_inv self)
   \<and> Node_init [1, 2] [0] [] 0.1 = Inl ValueError"
  using Node_init_validation [of "[1, 2]" "[0, 0]" "[]" "0.1"]
    Node_init_validation [of "[1, 2]" "[0]" "[]" "0.1"]
  by auto

subsection \<open>Forward evaluation\<close>

lemma sigmoid_Inr:
  "0 < numInputs self \<Longrightarrow>
   sigmoid self x = Inr (1 / (1 + exp (- x * sigmoid_value self)) / real (numInputs self))"
  by (simp add: sigmoid_def math_e_powr)

lemma call_sum_eq:
  "length ws = length ns \<Longrightarrow> length bs = length ns \<Longrightarrow> (ns \<noteq> [] \<Longrightarrow> 0 < numInputs self) \<Longrightarrow>
   call_sum self acc ws bs ns =
     Inr (acc + (\<Sum>i<length ns.
       1 / (1 + exp (- (ws ! i * ns ! i + bs ! i) * sigmoid_value self)) / real (numInputs self)))"
proof (induction self acc ws bs ns rule: call_sum.induct)
  case (1 self acc weight ws bias bs num ns)
  have pos: "0 < numInputs self"
    using "1.prems" by simp
  let ?t = "\<lambda>w b n. 1 / (1 + exp (- (w * n + b) * sigmoid_value self)) / real (numInputs self)"
  have step: "sigmoid self (weight * num + bias) = Inr (?t weight bias num)"
    using pos by (rule sigmoid_Inr)
  have rest: "call_sum self (acc + ?t weight bias num) ws bs ns =
      Inr (acc + ?t weight bias num + (\<Sum>i<length ns. ?t (ws ! i) (bs ! i) (ns ! i)))"
    using "1.IH" [OF step] "1.prems" pos by simp
  have split: "(\<Sum>i<length (num # ns). ?t ((weight # ws) ! i) ((bias # bs) ! i) ((num # ns) ! i)) =
      ?t weight bias num + (\<Sum>i<length ns. ?t (ws ! i) (bs ! i) (ns ! i))"
    by (simp only: list.size sum.lessThan_Suc_shift add_Suc_right add_0_right One_nat_def
        nth_Cons_0 nth_Cons_Suc)
  show ?case
    unfolding split using step rest by (simp add: add.assoc)
qed simp_all

text \<open>
  C3. Called on an input list whose length is the input count, a unit returns the sum
  over all indices of \<open>sigmoid (weights[i] * nums[i] + biases[i])\<close>, where
  \<open>sigmoid x = 1 / (1 + e^(- x * sigmoidCoefficient)) / inputCount\<close>, and stores the sum
  in its value field, changing nothing else; and \<open>sigmoid 0 = 0.5 / inputCount\<close> for a
  positive input count.
\<close>

theorem Node_call_sum_of_sigmoids:
  assumes "node_inv self" and "length nums = numInputs self"
  shows "Node_call self nums =
      Inr (\<Sum>i<numInputs self.
             1 / (1 + exp (- (weights self ! i * nums ! i + biases self ! i) * sigmoid_value self))
               / real (numInputs self),
           self\<lparr>node_value := \<Sum>i<numInputs self.
             1 / (1 + exp (- (weights self ! i * nums ! i + biases self ! i) * sigmoid_value self))
               / real (numInputs self)\<rparr>)
    \<and> (\<forall>i<numInputs self. sigmoid self (weights self ! i * nums ! i + biases self ! i) =
          Inr (1 / (1 + exp (- (weights self ! i * nums ! i + biases self ! i) * sigmoid_value self))
               / real (numInputs self)))
    \<and> (0 < numInputs self \<longrightarrow> sigmoid self 0 = Inr (0.5 / real (numInputs self)))"
proof -
  have "call_sum self 0 (weights self) (biases self) nums =
      Inr (0 + (\<Sum>i<length nums.
        1 / (1 + exp (- (weights self ! i * nums ! i + biases self ! i) * sigmoid_value self))
          / real (numInputs self)))"
    using assms by (intro call_sum_eq) (auto simp: node_inv_def simp flip: length_greater_0_conv)
  then have "Node_call self nums =
      Inr (\<Sum>i<numInputs self.
             1 / (1 + exp (- (weights self ! i * nums ! i + biases self ! i) * sigmoid_value self))
               / real (numInputs self),
           self\<lparr>node_value := \<Sum>i<numInputs self.
             1 / (1 + exp (- (weights self ! i * nums ! i + biases self ! i) * sigmoid_value self))
               / real (numInputs self)\<rparr>)"
    using assms by (simp add: Node_call_def)
  moreover have "\<forall>i<numInputs self. sigmoid self (weights self ! i * nums ! i + biases self ! i) =
          Inr (1 / (1 + exp (- (weights self ! i * nums ! i + biases self ! i) * sigmoid_value self))
               / real (numInputs self))"
    using sigmoid_Inr [of self] by (metis not_less_zero not_gr_zero)
  moreover have "0 < numInputs self \<longrightarrow> sigmoid self 0 = Inr (0.5 / real (numInputs self))"
    using sigmoid_Inr [of self 0] by simp
  ultimately show ?thesis by blast
qed

theorem Node_call_sum_of_sigmoids_witness:
  "node_inv \<lparr>numInputs = 2, weights = [1, 1], biases = [0, 0], children = [],
       sigmoid_value = 0.1, node_value = 0\<rparr>
   \<and> length [0, 0 :: real] = 2
   \<and> Node_call \<lparr>numInputs = 2, weights = [1, 1], biases = [0, 0], children = [],
       sigmoid_value = 0.1, node_value = 0\<rparr> [0, 0] =
     Inr (1 / 2, \<lparr>numInputs = 2, weights = [1, 1], biases = [0, 0], children = [],
       sigmoid_value = 0.1, node_value = 1 / 2\<rparr>)
   \<and> sigmoid \<lparr>numInputs = 2, weights = [1, 1], biases = [0, 0], children = [],
       sigmoid_value = 0.1, node_value = 0\<rparr> 0 = Inr (1 / 4)"
  using Node_call_sum_of_sigmoids [of "\<lparr>numInputs = 2, weights = [1, 1], biases = [0, 0],
       children = [], sigmoid_value = 0.1, node_value = 0\<rparr>" "[0, 0]"]
  by (simp add: node_inv_def lessThan_Suc numeral_2_eq_2)

subsection \<open>Gradient step\<close>

lemma gradientHelper_b_pos: "0 < gradientHelper_b self weight bias num"
  by (simp add: gradientHelper_b_def math_e_powr add_pos_pos)

lemma gradientHelper_Inr:
  assumes "0 < numInputs self"
  shows "gradientHelper self weight bias num goal =
     Inr (spec_dW (sigmoid_value self) (numInputs self) weight bias num goal,
          spec_dB (sigmoid_value self) (numInputs self) weight bias num goal)"
proof -
  have b: "gradientHelper_b self weight bias num = exp (- (weight * num + bias) * sigmoid_value self) + 1"
    by (simp add: gradientHelper_b_def gradientHelper_a_def math_e_powr)
  have pos: "0 < exp (- (weight * num + bias) * sigmoid_value self) + 1"
    by (simp add: add_pos_pos)
  show ?thesis
    using assms pos unfolding gradientHelper_def gradientHelper_c_def b spec_dW_def spec_dB_def Let_def
    by simp
qed

lemma weights_after_0: "weights_after self nums pg lr 0 = weights self"
  by (simp add: weights_after_def map_nth)

lemma biases_after_0: "biases_after self nums pg lr 0 = biases self"
  by (simp add: biases_after_def map_nth)

lemma length_weights_after [simp]: "length (weights_after self nums pg lr k) = length (weights self)"
  by (simp add: weights_after_def)

lemma length_biases_after [simp]: "length (biases_after self nums pg lr k) = length (biases self)"
  by (simp add: biases_after_def)

lemma weights_after_Suc:
  "k < length (weights self) \<Longrightarrow>
   (weights_after self nums pg lr k)[k := weights_after self nums pg lr k ! k -
      spec_dW (sigmoid_value self) (numInputs self) (weights self ! k) (biases self ! k) (nums ! k) pg * lr]
   = weights_after self nums pg lr (Suc k)"
  by (rule nth_equalityI) (auto simp: weights_after_def nth_list_update less_Suc_eq)

lemma biases_after_Suc:
  "k < length (biases self) \<Longrightarrow>
   (biases_after self nums pg lr k)[k := biases_after self nums pg lr k ! k -
      spec_dB (sigmoid_value self) (numInputs self) (weights self ! k) (biases self ! k) (nums ! k) pg * lr]
   = biases_after self nums pg lr (Suc k)"
  by (rule nth_equalityI) (auto simp: biases_after_def nth_list_update less_Suc_eq)

lemma gradient_loop_stop:
  "\<not> (index < length (weights self) \<and> index < length (biases self) \<and> index < length nums) \<Longrightarrow>
   gradient_loop len nums goal lr index self = Inr self"
  by (subst gradient_loop.simps) auto

lemma gradient_loop_step:
  "index < length (weights self) \<Longrightarrow> index < length (biases self) \<Longrightarrow> index < length nums \<Longrightarrow>
   len \<noteq> 0 \<Longrightarrow>
   gradientHelper self (weights self ! index) (biases self ! index) (nums ! index) (goal / real len) =
     Inr (weightChange, biasChange) \<Longrightarrow>
   gradient_loop len nums goal lr index self =
     gradient_loop len nums goal lr (Suc index)
       (self\<lparr>weights := (weights self)[index := weights self ! index - weightChange * lr],
             biases := (biases self)[index := biases self ! index - biasChange * lr]\<rparr>)"
  by (subst gradient_loop.simps) (simp add: Let_def)

lemma gradient_loop_after:
  assumes inv: "node_inv self"
  shows "k \<le> min (numInputs self) (length nums) \<Longrightarrow>
    gradient_loop (length nums) nums goal lr k
      (self\<lparr>weights := weights_after self nums (goal / real (length nums)) lr k,
            biases := biases_after self nums (goal / real (length nums)) lr k\<rparr>) =
    Inr (self\<lparr>weights := weights_after self nums (goal / real (length nums)) lr
                  (min (numInputs self) (length nums)),
              biases := biases_after self nums (goal / real (length nums)) lr
                  (min (numInputs self) (length nums))\<rparr>)"
proof (induction "min (numInputs self) (length nums) - k" arbitrary: k)
  case 0
  then have k: "k = min (numInputs self) (length nums)" by simp
  have stop: "\<not> (k < length (weights self) \<and> k < length (biases self) \<and> k < length nums)"
    using inv k by (auto simp: node_inv_def)
  show ?case
    using gradient_loop_stop [of k "self\<lparr>weights := weights_after self nums (goal / real (length nums)) lr k,
            biases := biases_after self nums (goal / real (length nums)) lr k\<rparr>" nums] stop
    by (simp add: k [symmetric])
next
  case (Suc d)
  let ?pg = "goal / real (length nums)"
  let ?cur = "self\<lparr>weights := weights_after self nums ?pg lr k,
                    biases := biases_after self nums ?pg lr k\<rparr>"
  have lt: "k < numInputs self" "k < length nums"
    using Suc.hyps(2) by auto
  have lw: "k < length (weights self)" and lb: "k < length (biases self)"
    using lt inv by (auto simp: node_inv_def)
  have wk: "weights_after self nums ?pg lr k ! k = weights self ! k"
    using lw by (simp add: weights_after_def)
  have bk: "biases_after self nums ?pg lr k ! k = biases self ! k"
    using lb by (simp add: biases_after_def)
  have helper: "gradientHelper ?cur (weights self ! k) (biases self ! k) (nums ! k) ?pg =
      Inr (spec_dW (sigmoid_value self) (numInputs self) (weights self ! k) (biases self ! k) (nums ! k) ?pg,
           spec_dB (sigmoid_value self) (numInputs self) (weights self ! k) (biases self ! k) (nums ! k) ?pg)"
    using gradientHelper_Inr [of ?cur] lt by simp
  have IH: "gradient_loop (length nums) nums goal lr (Suc k)
      (self\<lparr>weights := weights_after self nums ?pg lr (Suc k),
            biases := biases_after self nums ?pg lr (Suc k)\<rparr>) =
    Inr (self\<lparr>weights := weights_after self nums ?pg lr (min (numInputs self) (length nums)),
              biases := biases_after self nums ?pg lr (min (numInputs self) (length nums))\<rparr>)"
    using Suc.hyps(1) [of "Suc k"] Suc.hyps(2) lt by simp
  have nz: "length nums \<noteq> 0"
    using lt by auto
  have "gradient_loop (length nums) nums goal lr k ?cur =
      gradient_loop (length nums) nums goal lr (Suc k)
       (?cur\<lparr>weights := (weights ?cur)[k := weights ?cur ! k -
           spec_dW (sigmoid_value self) (numInputs self) (weights self ! k) (biases self ! k) (nums ! k) ?pg * lr],
         biases := (biases ?cur)[k := biases ?cur ! k -
           spec_dB (sigmoid_value self) (numInputs self) (weights self ! k) (biases self ! k) (nums ! k) ?pg * lr]\<rparr>)"
    by (rule gradient_loop_step) (use lt lw lb helper nz in \<open>simp_all add: wk bk\<close>)
  also have "\<dots> = gradient_loop (length nums) nums goal lr (Suc k)
      (self\<lparr>weights := weights_after self nums ?pg lr (Suc k),
            biases := biases_after self nums ?pg lr (Suc k)\<rparr>)"
    using weights_after_Suc [OF lw, of nums ?pg lr] biases_after_Suc [OF lb, of nums ?pg lr]
    by simp
  finally show ?case
    using IH by simp
qed


lemma gradient_result:
  assumes "node_inv self"
  shows "gradient self nums goal lr =
    Inr (self\<lparr>weights := weights_after self nums (goal / real (length nums)) lr
                  (min (numInputs self) (length nums)),
              biases := biases_after self nums (goal / real (length nums)) lr
                  (min (numInputs self) (length nums))\<rparr>)"
  using gradient_loop_after [OF assms, of 0 nums goal lr]
  by (simp add: gradient_def weights_after_0 biases_after_0)

text \<open>
  C1. For a unit with input count \<open>n\<close> and an input list of length \<open>n\<close>, one call of
  \<open>gradient\<close> succeeds and replaces, for each index \<open>i\<close>, \<open>weights[i]\<close> by
  \<open>weights[i] - learnRate * dW_i\<close> and \<open>biases[i]\<close> by \<open>biases[i] - learnRate * dB_i\<close>, where
  \<open>dB_i\<close> and \<open>dW_i = dB_i * nums[i]\<close> are the partials of the specification for the goal
  \<open>goal / len(nums)\<close>, computed from the weights and biases the unit had before the call;
  no other field changes.
\<close>

theorem gradient_updates_every_pair:
  assumes "node_inv self" and "length nums = numInputs self"
  shows "\<exists>W B. gradient self nums goal rate = Inr (self\<lparr>weights := W, biases := B\<rparr>)
      \<and> length W = numInputs self \<and> length B = numInputs self
      \<and> (\<forall>i<numInputs self.
            W ! i = weights self ! i - rate *
              spec_dW (sigmoid_value self) (numInputs self) (weights self ! i) (biases self ! i)
                (nums ! i) (goal / real (length nums))
          \<and> B ! i = biases self ! i - rate *
              spec_dB (sigmoid_value self) (numInputs self) (weights self ! i) (biases self ! i)
                (nums ! i) (goal / real (length nums)))"
proof (intro exI conjI)
  show "gradient self nums goal rate =
      Inr (self\<lparr>weights := weights_after self nums (goal / real (length nums)) rate (numInputs self),
                biases := biases_after self nums (goal / real (length nums)) rate (numInputs self)\<rparr>)"
    using gradient_result [OF assms(1), of nums goal rate] assms(2) by simp
  show "length (weights_after self nums (goal / real (length nums)) rate (numInputs self)) = numInputs self"
    using assms by (simp add: node_inv_def)
  show "length (biases_after self nums (goal / real (length nums)) rate (numInputs self)) = numInputs self"
    using assms by (simp add: node_inv_def)
  show "\<forall>i<numInputs self.
      weights_after self nums (goal / real (length nums)) rate (numInputs self) ! i =
        weights self ! i - rate *
          spec_dW (sigmoid_value self) (numInputs self) (weights self ! i) (biases self ! i)
            (nums ! i) (goal / real (length nums))
      \<and> biases_after self nums (goal / real (length nums)) rate (numInputs self) ! i =
        biases self ! i - rate *
          spec_dB (sigmoid_value self) (numInputs self) (weights self ! i) (biases self ! i)
            (nums ! i) (goal / real (length nums))"
    using assms by (simp add: node_inv_def weights_after_def biases_after_def)
qed

theorem gradient_updates_every_pair_witness:
  "node_inv \<lparr>numInputs = 1, weights = [0], biases = [0], children = [], sigmoid_value = 1,
      node_value = 0\<rparr>
   \<and> length [1 :: real] = 1
   \<and> gradient \<lparr>numInputs = 1, weights = [0], biases = [0], children = [], sigmoid_value = 1,
      node_value = 0\<rparr> [1] 0 1 =
     Inr \<lparr>numInputs = 1, weights = [- 1 / 2], biases = [- 1 / 2], children = [],
      sigmoid_value = 1, node_value = 0\<rparr>"
proof -
  let ?n = "\<lparr>numInputs = 1, weights = [0], biases = [0], children = [], sigmoid_value = 1,
      node_value = 0 :: real\<rparr>"
  have inv: "node_inv ?n" by (simp add: node_inv_def)
  have len: "length [1 :: real] = numInputs ?n" by simp
  obtain W B where g: "gradient ?n [1] 0 1 = Inr (?n\<lparr>weights := W, biases := B\<rparr>)"
    and lW: "length W = 1" and lB: "length B = 1"
    and W0: "W ! 0 = - 1 / 2" and B0: "B ! 0 = - 1 / 2"
    using gradient_updates_every_pair [OF inv len, of 0 1]
    by (auto simp: spec_dW_def spec_dB_def power2_eq_square)
  have "W = [- 1 / 2]" "B = [- 1 / 2]"
    using lW lB W0 B0 by (cases W; cases B; simp)+
  then show ?thesis
    using g inv by simp
qed

text \<open>
  C10. Called with an input list shorter than the input count, \<open>gradient\<close> raises no
  error: the pairs at the indices below \<open>len(nums)\<close> receive the update, with the
  per-example goal \<open>goal / len(nums)\<close>, and every weight and bias from index \<open>len(nums)\<close>
  on is left as it was.
\<close>

theorem gradient_short_input_frame:
  assumes "node_inv self" and "length nums < numInputs self"
  shows "\<exists>W B. gradient self nums goal rate = Inr (self\<lparr>weights := W, biases := B\<rparr>)
      \<and> length W = numInputs self \<and> length B = numInputs self
      \<and> (\<forall>i<length nums.
            W ! i = weights self ! i - rate *
              spec_dW (sigmoid_value self) (numInputs self) (weights self ! i) (biases self ! i)
                (nums ! i) (goal / real (length nums))
          \<and> B ! i = biases self ! i - rate *
              spec_dB (sigmoid_value self) (numInputs self) (weights self ! i) (biases self ! i)
                (nums ! i) (goal / real (length nums)))
      \<and> (\<forall>i. length nums \<le> i \<and> i < numInputs self \<longrightarrow>
            W ! i = weights self ! i \<and> B ! i = biases self ! i)"
proof (intro exI conjI)
  let ?pg = "goal / real (length nums)"
  have m: "min (numInputs self) (length nums) = length nums"
    using assms(2) by simp
  show "gradient self nums goal rate =
      Inr (self\<lparr>weights := weights_after self nums ?pg rate (length nums),
                biases := biases_after self nums ?pg rate (length nums)\<rparr>)"
    using gradient_result [OF assms(1), of nums goal rate] m by simp
  show "length (weights_after self nums ?pg rate (length nums)) = numInputs self"
    using assms by (simp add: node_inv_def)
  show "length (biases_after self nums ?pg rate (length nums)) = numInputs self"
    using assms by (simp add: node_inv_def)
  show "\<forall>i<length nums.
      weights_after self nums ?pg rate (length nums) ! i =
        weights self ! i - rate *
          spec_dW (sigmoid_value self) (numInputs self) (weights self ! i) (biases self ! i)
            (nums ! i) ?pg
      \<and> biases_after self nums ?pg rate (length nums) ! i =
        biases self ! i - rate *
          spec_dB (sigmoid_value self) (numInputs self) (weights self ! i) (biases self ! i)
            (nums ! i) ?pg"
    using assms by (simp add: node_inv_def weights_after_def biases_after_def)
  show "\<forall>i. length nums \<le> i \<and> i < numInputs self \<longrightarrow>
      weights_after self nums ?pg rate (length nums) ! i = weights self ! i
      \<and> biases_after self nums ?pg rate (length nums) ! i = biases self ! i"
    using assms by (simp add: node_inv_def weights_after_def biases_after_def)
qed

theorem gradient_short_input_frame_witness:
  "node_inv \<lparr>numInputs = 2, weights = [0, 3], biases = [0, 5], children = [], sigmoid_value = 1,
      node_value = 0\<rparr>
   \<and> length [1 :: real] < 2
   \<and> gradient \<lparr>numInputs = 2, weights = [0, 3], biases = [0, 5], children = [], sigmoid_value = 1,
      node_value = 0\<rparr> [1] 0 1 =
     Inr \<lparr>numInputs = 2, weights = [- 1 / 8, 3], biases = [- 1 / 8, 5], children = [],
      sigmoid_value = 1, node_value = 0\<rparr>"
proof -
  let ?n = "\<lparr>numInputs = 2, weights = [0, 3], biases = [0, 5], children = [], sigmoid_value = 1,
      node_value = 0 :: real\<rparr>"
  have inv: "node_inv ?n" by (simp add: node_inv_def)
  have len: "length [1 :: real] < numInputs ?n" by simp
  obtain W B where g: "gradient ?n [1] 0 1 = Inr (?n\<lparr>weights := W, biases := B\<rparr>)"
    and lW: "length W = 2" and lB: "length B = 2"
    and W0: "W ! 0 = - 1 / 8" and B0: "B ! 0 = - 1 / 8"
    and W1: "W ! 1 = 3" and B1: "B ! 1 = 5"
    using gradient_short_input_frame [OF inv len, of 0 1]
    by (auto simp: spec_dW_def spec_dB_def power2_eq_square)
  have "W = [- 1 / 8, 3]"
    using lW W0 W1 by (intro nth_equalityI) (auto simp: less_Suc_eq numeral_2_eq_2)
  moreover have "B = [- 1 / 8, 5]"
    using lB B0 B1 by (intro nth_equalityI) (auto simp: less_Suc_eq numeral_2_eq_2)
  ultimately show ?thesis
    using g inv by simp
qed

subsection \<open>The partials and the derivative of the loss\<close>

lemma sq_recip_deriv:
  fixes f :: "real \<Rightarrow> real"
  assumes f: "(f has_real_derivative f') (at x)" and fx: "f x \<noteq> 0" and N: "N \<noteq> 0"
  shows "((\<lambda>t. (1 / (f t * N) - g)\<^sup>2) has_real_derivative
     2 * (1 / (f x * N) - g) * (- f' / ((f x)\<^sup>2 * N))) (at x)"
proof -
  have 1: "((\<lambda>t. f t * N) has_real_derivative f' * N) (at x)"
    using f by (auto intro!: derivative_eq_intros)
  have 2: "((\<lambda>t. 1 / (f t * N)) has_real_derivative - (f' * N) / ((f x * N) * (f x * N))) (at x)"
    using DERIV_inverse_fun [OF 1] fx N by (simp add: divide_inverse power2_eq_square)
  have 3: "((\<lambda>t. 1 / (f t * N) - g) has_real_derivative - (f' * N) / ((f x * N) * (f x * N))) (at x)"
    using Deriv.field_differentiable_diff [OF 2 DERIV_const [of g]] by simp
  have 4: "((\<lambda>t. (1 / (f t * N) - g)\<^sup>2) has_real_derivative
      2 * (1 / (f x * N) - g) * (- (f' * N) / ((f x * N) * (f x * N)))) (at x)"
    by (rule DERIV_cong [OF DERIV_power [OF 3, of 2]]) simp
  have "- (f' * N) / ((f x * N) * (f x * N)) = - f' / ((f x)\<^sup>2 * N)"
    using fx N by (simp add: power2_eq_square field_simps)
  then show ?thesis using 4 by simp
qed

lemma gradientHelper_b_exp:
  "gradientHelper_b self weight bias num = exp (- (weight * num + bias) * sigmoid_value self) + 1"
  by (simp add: gradientHelper_b_def gradientHelper_a_def math_e_powr)

lemma gradientHelper_b_bias_deriv:
  "((\<lambda>bias. gradientHelper_b self weight bias num) has_real_derivative
      - sigmoid_value self * (gradientHelper_b self weight bias0 num - 1)) (at bias0)"
  unfolding gradientHelper_b_exp
  by (auto intro!: derivative_eq_intros)

lemma gradientHelper_b_weight_deriv:
  "((\<lambda>weight. gradientHelper_b self weight bias num) has_real_derivative
      - sigmoid_value self * num * (gradientHelper_b self weight0 bias num - 1)) (at weight0)"
  unfolding gradientHelper_b_exp
  by (auto intro!: derivative_eq_intros)

lemma gradientHelper_d_bias_deriv:
  assumes "0 < numInputs self"
  shows "((\<lambda>bias. gradientHelper_d self weight bias num goal) has_real_derivative
      2 * sigmoid_value self * (gradientHelper_b self weight bias0 num - 1) *
        (gradientHelper_c self weight bias0 num - goal) /
        ((gradientHelper_b self weight bias0 num)\<^sup>2 * real (numInputs self)))
     (at bias0)"
proof -
  have nz: "gradientHelper_b self weight bias0 num \<noteq> 0"
    using gradientHelper_b_pos [of self weight bias0 num] by simp
  have N: "real (numInputs self) \<noteq> 0"
    using assms by simp
  show ?thesis
    unfolding gradientHelper_d_def gradientHelper_c_def
    by (rule DERIV_cong [OF sq_recip_deriv [OF gradientHelper_b_bias_deriv nz N, of goal]]) simp
qed

lemma gradientHelper_d_weight_deriv:
  assumes "0 < numInputs self"
  shows "((\<lambda>weight. gradientHelper_d self weight bias num goal) has_real_derivative
      2 * sigmoid_value self * (gradientHelper_b self weight0 bias num - 1) *
        (gradientHelper_c self weight0 bias num - goal) /
        ((gradientHelper_b self weight0 bias num)\<^sup>2 * real (numInputs self)) * num)
     (at weight0)"
proof -
  have nz: "gradientHelper_b self weight0 bias num \<noteq> 0"
    using gradientHelper_b_pos [of self weight0 bias num] by simp
  have N: "real (numInputs self) \<noteq> 0"
    using assms by simp
  show ?thesis
    unfolding gradientHelper_d_def gradientHelper_c_def
    by (rule DERIV_cong [OF sq_recip_deriv [OF gradientHelper_b_weight_deriv nz N, of goal]]) simp
qed


text \<open>
  C2. The claim is that the bias partial returned by \<open>gradientHelper\<close> is the analytic
  derivative with respect to the bias of \<open>(c - perExampleGoal)\<^sup>2\<close>, the local \<open>d\<close> of the
  source, and the weight partial the derivative with respect to the weight. The two
  lemmas above give those derivatives: they carry the factor \<open>b - 1 = e^(- a * s)\<close> where the
  source has \<open>b\<close>. At weight 0, bias 0, input 1, goal 0, coefficient 1 and one input the
  source returns 1/2 for both partials, and both derivatives are 1/4.
\<close>

theorem gradientHelper_partials_differ_from_derivative:
  "gradientHelper \<lparr>numInputs = 1, weights = [0], biases = [0], children = [],
       sigmoid_value = 1, node_value = 0\<rparr> 0 0 1 0 = Inr (1 / 2, 1 / 2)
   \<and> ((\<lambda>bias. gradientHelper_d \<lparr>numInputs = 1, weights = [0], biases = [0], children = [],
          sigmoid_value = 1, node_value = 0\<rparr> 0 bias 1 0) has_real_derivative 1 / 4) (at 0)
   \<and> ((\<lambda>weight. gradientHelper_d \<lparr>numInputs = 1, weights = [0], biases = [0], children = [],
          sigmoid_value = 1, node_value = 0\<rparr> weight 0 1 0) has_real_derivative 1 / 4) (at 0)
   \<and> \<not> ((\<lambda>bias. gradientHelper_d \<lparr>numInputs = 1, weights = [0], biases = [0], children = [],
          sigmoid_value = 1, node_value = 0\<rparr> 0 bias 1 0) has_real_derivative 1 / 2) (at 0)
   \<and> \<not> ((\<lambda>weight. gradientHelper_d \<lparr>numInputs = 1, weights = [0], biases = [0], children = [],
          sigmoid_value = 1, node_value = 0\<rparr> weight 0 1 0) has_real_derivative 1 / 2) (at 0)"
proof -
  let ?n = "\<lparr>numInputs = 1, weights = [0], biases = [0], children = [],
       sigmoid_value = 1, node_value = 0 :: real\<rparr>"
  have code: "gradientHelper ?n 0 0 1 0 = Inr (1 / 2, 1 / 2)"
    by (simp add: gradientHelper_def gradientHelper_c_def gradientHelper_b_exp Let_def
        power2_eq_square)
  have dB: "((\<lambda>bias. gradientHelper_d ?n 0 bias 1 0) has_real_derivative 1 / 4) (at 0)"
    by (rule DERIV_cong [OF gradientHelper_d_bias_deriv]) (simp_all add: gradientHelper_c_def gradientHelper_b_exp power2_eq_square)
  have dW: "((\<lambda>weight. gradientHelper_d ?n weight 0 1 0) has_real_derivative 1 / 4) (at 0)"
    by (rule DERIV_cong [OF gradientHelper_d_weight_deriv]) (simp_all add: gradientHelper_c_def gradientHelper_b_exp power2_eq_square)
  have nB: "\<not> ((\<lambda>bias. gradientHelper_d ?n 0 bias 1 0) has_real_derivative 1 / 2) (at 0)"
    using DERIV_unique [OF dB] by fastforce
  have nW: "\<not> ((\<lambda>weight. gradientHelper_d ?n weight 0 1 0) has_real_derivative 1 / 2) (at 0)"
    using DERIV_unique [OF dW] by fastforce
  show ?thesis
    using code dB dW nB nW by (intro conjI)
qed

subsection \<open>Mutation\<close>

lemma mutate_loop_nth:
  "distinct idxs \<Longrightarrow> \<forall>i\<in>set idxs. i < length xs \<Longrightarrow>
   length (mutate_loop draws base idxs xs) = length xs \<and>
   (\<forall>i<length xs. mutate_loop draws base idxs xs ! i =
      (if i \<in> set idxs then xs ! i * (1 - draws (base + i)) else xs ! i))"
proof (induction idxs arbitrary: xs)
  case Nil
  then show ?case by simp
next
  case (Cons index rest)
  let ?ys = "xs[index := xs ! index * (1 - draws (base + index))]"
  have IH: "length (mutate_loop draws base rest ?ys) = length ?ys \<and>
      (\<forall>i<length ?ys. mutate_loop draws base rest ?ys ! i =
        (if i \<in> set rest then ?ys ! i * (1 - draws (base + i)) else ?ys ! i))"
    using Cons.prems by (intro Cons.IH) auto
  have notin: "index \<notin> set rest"
    using Cons.prems(1) by simp
  show ?case
    using IH notin Cons.prems(2) by (auto simp: Let_def nth_list_update)
qed

lemma mutate_loop_upt:
  "length (mutate_loop draws base [0..<length xs] xs) = length xs \<and>
   (\<forall>i<length xs. mutate_loop draws base [0..<length xs] xs ! i = xs ! i * (1 - draws (base + i)))"
  using mutate_loop_nth [of "[0..<length xs]" xs draws base] by simp

lemma Node_mutate_fields:
  "numInputs (Node_mutate draws self) = numInputs self"
  "children (Node_mutate draws self) = children self"
  "sigmoid_value (Node_mutate draws self) = sigmoid_value self"
  "node_value (Node_mutate draws self) = node_value self"
  "weights (Node_mutate draws self) = mutate_loop draws 0 [0..<length (weights self)] (weights self)"
  "biases (Node_mutate draws self) =
     mutate_loop draws (length (weights self)) [0..<length (biases self)] (biases self)"
  by (simp_all add: Node_mutate_def Let_def)

text \<open>
  C8. For every draw of the random fractions within \<open>[-MAX_MUTATION, MAX_MUTATION]\<close> =
  \<open>[-0.5, 0.5]\<close>, \<open>mutate\<close> returns the reference it was called on; in the heap only that
  unit changes; each weight and each bias becomes its old value times \<open>1 - f\<close>, with a
  draw \<open>f\<close> of its own, and the factor \<open>1 - f\<close> lies in
  \<open>[1 - MAX_MUTATION, 1 + MAX_MUTATION]\<close>.
\<close>

theorem mutate_scales_in_place:
  assumes "\<forall>k. - MAX_MUTATION \<le> draws k \<and> draws k \<le> MAX_MUTATION"
  shows "snd (mutate draws h self) = self
    \<and> (\<forall>r. r \<noteq> self \<longrightarrow> fst (mutate draws h self) r = h r)
    \<and> MAX_MUTATION = 0.5
    \<and> length (weights (fst (mutate draws h self) self)) = length (weights (h self))
    \<and> length (biases (fst (mutate draws h self) self)) = length (biases (h self))
    \<and> (\<forall>i<length (weights (h self)).
          weights (fst (mutate draws h self) self) ! i = weights (h self) ! i * (1 - draws i)
        \<and> 1 - MAX_MUTATION \<le> 1 - draws i \<and> 1 - draws i \<le> 1 + MAX_MUTATION)
    \<and> (\<forall>i<length (biases (h self)).
          biases (fst (mutate draws h self) self) ! i =
            biases (h self) ! i * (1 - draws (length (weights (h self)) + i))
        \<and> 1 - MAX_MUTATION \<le> 1 - draws (length (weights (h self)) + i)
        \<and> 1 - draws (length (weights (h self)) + i) \<le> 1 + MAX_MUTATION)
    \<and> numInputs (fst (mutate draws h self) self) = numInputs (h self)
    \<and> children (fst (mutate draws h self) self) = children (h self)
    \<and> sigmoid_value (fst (mutate draws h self) self) = sigmoid_value (h self)
    \<and> node_value (fst (mutate draws h self) self) = node_value (h self)"
proof -
  have new: "fst (mutate draws h self) self = Node_mutate draws (h self)"
    by (simp add: mutate_def)
  have bound: "\<And>k. 1 - MAX_MUTATION \<le> 1 - draws k \<and> 1 - draws k \<le> 1 + MAX_MUTATION"
  proof -
    fix k
    have "- MAX_MUTATION \<le> draws k" "draws k \<le> MAX_MUTATION"
      using assms by simp_all
    then show "1 - MAX_MUTATION \<le> 1 - draws k \<and> 1 - draws k \<le> 1 + MAX_MUTATION"
      by linarith
  qed
  have W: "length (weights (Node_mutate draws (h self))) = length (weights (h self))"
    "\<forall>i<length (weights (h self)).
       weights (Node_mutate draws (h self)) ! i = weights (h self) ! i * (1 - draws i)"
    using mutate_loop_upt [of draws 0 "weights (h self)"]
    by (simp_all add: Node_mutate_fields)
  have B: "length (biases (Node_mutate draws (h self))) = length (biases (h self))"
    "\<forall>i<length (biases (h self)).
       biases (Node_mutate draws (h self)) ! i =
         biases (h self) ! i * (1 - draws (length (weights (h self)) + i))"
    using mutate_loop_upt [of draws "length (weights (h self))" "biases (h self)"]
    by (simp_all add: Node_mutate_fields)
  have ret: "snd (mutate draws h self) = self"
    by (simp add: mutate_def)
  have frame: "\<forall>r. r \<noteq> self \<longrightarrow> fst (mutate draws h self) r = h r"
    by (simp add: mutate_def)
  have M: "MAX_MUTATION = 0.5"
    by (simp add: MAX_MUTATION_def)
  show ?thesis
    unfolding new
    using ret frame M W B bound Node_mutate_fields(1-4) [of draws "h self"]
    by blast
qed

theorem mutate_scales_in_place_witness:
  "(\<forall>k. - MAX_MUTATION \<le> (\<lambda>k. if k = 0 then 1 / 2 else - 1 / 2) k
        \<and> (\<lambda>k. if k = 0 then 1 / 2 else - 1 / 2) k \<le> MAX_MUTATION)
   \<and> snd (mutate (\<lambda>k. if k = 0 then 1 / 2 else - 1 / 2)
        (\<lambda>r. \<lparr>numInputs = 1, weights = [4], biases = [2], children = [], sigmoid_value = 1,
               node_value = 0\<rparr>) 7) = 7
   \<and> weights (fst (mutate (\<lambda>k. if k = 0 then 1 / 2 else - 1 / 2)
        (\<lambda>r. \<lparr>numInputs = 1, weights = [4], biases = [2], children = [], sigmoid_value = 1,
               node_value = 0\<rparr>) 7) 7) ! 0 = 2
   \<and> biases (fst (mutate (\<lambda>k. if k = 0 then 1 / 2 else - 1 / 2)
        (\<lambda>r. \<lparr>numInputs = 1, weights = [4], biases = [2], children = [], sigmoid_value = 1,
               node_value = 0\<rparr>) 7) 7) ! 0 = 3"
proof -
  have d: "\<forall>k. - MAX_MUTATION \<le> (\<lambda>k. if k = 0 then 1 / 2 else - 1 / 2) k
        \<and> (\<lambda>k. if k = 0 then 1 / 2 else - 1 / 2) k \<le> MAX_MUTATION"
    by (simp add: MAX_MUTATION_def)
  show ?thesis
    using d mutate_scales_in_place [OF d, of "\<lambda>r. \<lparr>numInputs = 1, weights = [4], biases = [2],
      children = [], sigmoid_value = 1, node_value = 0\<rparr>" 7]
    by simp
qed

subsection \<open>The class invariant\<close>

lemma call_sum_total:
  "(ws \<noteq> [] \<Longrightarrow> 0 < numInputs self) \<Longrightarrow> \<exists>v. call_sum self acc ws bs ns = Inr v"
proof (induction self acc ws bs ns rule: call_sum.induct)
  case (1 self acc weight ws bias bs num ns)
  have pos: "0 < numInputs self"
    using "1.prems" by simp
  show ?case
    using "1.IH" [OF sigmoid_Inr [OF pos]] pos by (simp add: sigmoid_Inr)
qed simp_all

lemma Node_call_total:
  assumes "node_inv self"
  shows "\<exists>v. Node_call self nums = Inr (v, self\<lparr>node_value := v\<rparr>)"
proof -
  have "weights self \<noteq> [] \<Longrightarrow> 0 < numInputs self"
    using assms by (auto simp: node_inv_def simp flip: length_greater_0_conv)
  then obtain v where "call_sum self 0 (weights self) (biases self) nums = Inr v"
    using call_sum_total [of "weights self" self 0 "biases self" nums] by blast
  then show ?thesis
    by (simp add: Node_call_def)
qed

text \<open>
  C9. The invariant \<open>len(weights) = len(biases) = numInputs\<close> is kept by every operation
  of a unit: the forward call and \<open>setChildren\<close> leave both lists and \<open>numInputs\<close> as
  they are, \<open>gradient\<close> (for an input list of any length) and \<open>mutate\<close> change elements
  but no length and not \<open>numInputs\<close>, and none of them raises; \<open>__deepcopy__\<close> yields a
  unit with equal lists that satisfies the invariant. \<open>sigmoid\<close> and \<open>asDict\<close> contain
  no assignment: they are functions from the unit to a value and return no new state.
\<close>

theorem node_inv_preserved:
  assumes "node_inv self"
  shows "(\<exists>v self'. Node_call self nums = Inr (v, self') \<and> node_inv self'
            \<and> numInputs self' = numInputs self \<and> weights self' = weights self
            \<and> biases self' = biases self)
    \<and> (\<exists>self'. gradient self nums goal rate = Inr self' \<and> node_inv self'
            \<and> numInputs self' = numInputs self)
    \<and> (node_inv (Node_mutate draws self) \<and> numInputs (Node_mutate draws self) = numInputs self)
    \<and> (node_inv (setChildren self newChildren)
            \<and> numInputs (setChildren self newChildren) = numInputs self
            \<and> weights (setChildren self newChildren) = weights self
            \<and> biases (setChildren self newChildren) = biases self)
    \<and> (\<exists>copy. deepcopy self = Inr copy \<and> node_inv copy \<and> numInputs copy = numInputs self
            \<and> weights copy = weights self \<and> biases copy = biases self)"
proof (intro conjI)
  obtain v where "Node_call self nums = Inr (v, self\<lparr>node_value := v\<rparr>)"
    using Node_call_total [OF assms] by blast
  then show "\<exists>v self'. Node_call self nums = Inr (v, self') \<and> node_inv self'
            \<and> numInputs self' = numInputs self \<and> weights self' = weights self
            \<and> biases self' = biases self"
    using assms by (auto simp: node_inv_def)
  show "\<exists>self'. gradient self nums goal rate = Inr self' \<and> node_inv self'
            \<and> numInputs self' = numInputs self"
    using gradient_result [OF assms, of nums goal rate] assms by (simp add: node_inv_def)
  show "node_inv (Node_mutate draws self)"
    using assms mutate_loop_upt [of draws 0 "weights self"]
      mutate_loop_upt [of draws "length (weights self)" "biases self"]
    by (simp add: node_inv_def Node_mutate_fields)
  show "numInputs (Node_mutate draws self) = numInputs self"
    by (simp add: Node_mutate_fields)
  show "node_inv (setChildren self newChildren)"
    using assms by (simp add: node_inv_def setChildren_def)
  show "numInputs (setChildren self newChildren) = numInputs self"
    "weights (setChildren self newChildren) = weights self"
    "biases (setChildren self newChildren) = biases self"
    by (simp_all add: setChildren_def)
  show "\<exists>copy. deepcopy self = Inr copy \<and> node_inv copy \<and> numInputs copy = numInputs self
            \<and> weights copy = weights self \<and> biases copy = biases self"
    using assms by (simp add: deepcopy_def Node_init_def node_inv_def)
qed

theorem node_inv_preserved_witness:
  "node_inv \<lparr>numInputs = 2, weights = [1, 2], biases = [3, 4], children = [], sigmoid_value = 1,
      node_value = 0\<rparr>
   \<and> (\<exists>self'. gradient \<lparr>numInputs = 2, weights = [1, 2], biases = [3, 4], children = [],
         sigmoid_value = 1, node_value = 0\<rparr> [5, 6, 7] 1 (1 / 10) = Inr self' \<and> node_inv self'
         \<and> numInputs self' = 2)
   \<and> node_inv (Node_mutate (\<lambda>k. 1 / 4) \<lparr>numInputs = 2, weights = [1, 2], biases = [3, 4],
         children = [], sigmoid_value = 1, node_value = 0\<rparr>)
   \<and> (\<exists>copy. deepcopy \<lparr>numInputs = 2, weights = [1, 2], biases = [3, 4], children = [],
         sigmoid_value = 1, node_value = 0\<rparr> = Inr copy \<and> node_inv copy)"
proof -
  have inv: "node_inv \<lparr>numInputs = 2, weights = [1, 2], biases = [3, 4], children = [],
      sigmoid_value = 1, node_value = 0\<rparr>"
    by (simp add: node_inv_def)
  show ?thesis
    using inv node_inv_preserved [OF inv, of "[5, 6, 7]" 1 "1 / 10" "\<lambda>k. 1 / 4" "[]"]
    by auto
qed

subsection \<open>Graph queries\<close>

lemma any_map_defined:
  "\<forall>x\<in>set xs. f x = Some (P x) \<Longrightarrow> any_map f xs = Some (\<exists>x\<in>set xs. P x)"
  by (induction xs) (auto split: bool.splits)

lemma trancl_first_step:
  "(a, b) \<in> r\<^sup>+ \<longleftrightarrow> (a, b) \<in> r \<or> (\<exists>c. (a, c) \<in> r \<and> (c, b) \<in> r\<^sup>+)"
  by (metis converse_tranclE trancl.r_into_trancl trancl_into_trancl2)

lemma isConnectedTo_reachable:
  assumes fin: "finite (edges h)" and acyc: "acyclic (edges h)"
  shows "\<exists>fuel0. \<forall>fuel\<ge>fuel0. isConnectedTo fuel h self other = Some ((self, other) \<in> (edges h)\<^sup>+)"
proof -
  have wf: "wf ((edges h)\<inverse>)"
    using fin acyc by (rule finite_acyclic_wf_converse)
  show ?thesis
    using wf
  proof (induction self rule: wf_induct_rule)
    case (less self)
    let ?cs = "children (h self)"
    have "\<forall>c\<in>set ?cs. \<exists>fuel0. \<forall>fuel\<ge>fuel0.
        isConnectedTo fuel h c other = Some ((c, other) \<in> (edges h)\<^sup>+)"
      using less.IH by (simp add: edges_def)
    then obtain g where g: "\<forall>c\<in>set ?cs. \<forall>fuel\<ge>g c.
        isConnectedTo fuel h c other = Some ((c, other) \<in> (edges h)\<^sup>+)"
      by metis
    let ?F = "sum_list (map g ?cs)"
    have bound: "\<forall>c\<in>set ?cs. g c \<le> ?F"
      by (simp add: member_le_sum_list)
    have "isConnectedTo fuel h self other = Some ((self, other) \<in> (edges h)\<^sup>+)"
      if big: "Suc ?F \<le> fuel" for fuel
    proof -
      obtain fuel' where fuel: "fuel = Suc fuel'"
        using big by (cases fuel) auto
      have le: "?F \<le> fuel'"
        using big fuel by simp
      have kids: "\<forall>c\<in>set ?cs. isConnectedTo fuel' h c other = Some ((c, other) \<in> (edges h)\<^sup>+)"
        using g bound le by (meson le_trans)
      have any: "any_map (\<lambda>child. isConnectedTo fuel' h child other) ?cs =
          Some (\<exists>c\<in>set ?cs. (c, other) \<in> (edges h)\<^sup>+)"
        using kids by (rule any_map_defined)
      have reach: "(self, other) \<in> (edges h)\<^sup>+ \<longleftrightarrow>
          other \<in> set ?cs \<or> (\<exists>c\<in>set ?cs. (c, other) \<in> (edges h)\<^sup>+)"
        by (subst trancl_first_step) (auto simp: edges_def)
      show ?thesis
        unfolding fuel using any reach by (simp add: isInChildren_def)
    qed
    then show ?case by blast
  qed
qed


text \<open>
  C7. On a heap whose children graph is finite and acyclic, \<open>isConnectedTo\<close> returns:
  from some recursion depth on, every depth gives the same answer, and the answer is
  true exactly when \<open>other\<close> is reachable from the unit along one or more children
  edges, which holds exactly when \<open>other\<close> is in the unit's children list or is
  reachable from one of the children. So it is true for a direct child and for a
  grandchild, and false for a unit that no descendant reaches.
\<close>

theorem isConnectedTo_iff_reachable:
  assumes "finite (edges h)" and "acyclic (edges h)"
  shows "(\<exists>fuel0. \<forall>fuel\<ge>fuel0.
            isConnectedTo fuel h self other = Some ((self, other) \<in> (edges h)\<^sup>+))
    \<and> ((self, other) \<in> (edges h)\<^sup>+ \<longleftrightarrow>
          isInChildren h self other \<or>
          (\<exists>child\<in>set (children (h self)). (child, other) \<in> (edges h)\<^sup>+))
    \<and> (isInChildren h self other \<longrightarrow> (self, other) \<in> (edges h)\<^sup>+)
    \<and> (\<forall>child. isInChildren h self child \<and> isInChildren h child other \<longrightarrow>
          (self, other) \<in> (edges h)\<^sup>+)"
proof (intro conjI)
  show "\<exists>fuel0. \<forall>fuel\<ge>fuel0.
      isConnectedTo fuel h self other = Some ((self, other) \<in> (edges h)\<^sup>+)"
    using assms by (rule isConnectedTo_reachable)
  show reach: "(self, other) \<in> (edges h)\<^sup>+ \<longleftrightarrow>
      isInChildren h self other \<or>
      (\<exists>child\<in>set (children (h self)). (child, other) \<in> (edges h)\<^sup>+)"
    by (subst trancl_first_step) (auto simp: edges_def isInChildren_def)
  show "isInChildren h self other \<longrightarrow> (self, other) \<in> (edges h)\<^sup>+"
    by (auto simp: edges_def isInChildren_def)
  show "\<forall>child. isInChildren h self child \<and> isInChildren h child other \<longrightarrow>
      (self, other) \<in> (edges h)\<^sup>+"
    by (auto simp: edges_def isInChildren_def intro: trancl_into_trancl2)
qed

theorem isConnectedTo_iff_reachable_witness:
  "finite (edges ((\<lambda>r. \<lparr>numInputs = 0, weights = [], biases = [], children = [],
        sigmoid_value = 1, node_value = 0\<rparr>)
      (0 := \<lparr>numInputs = 0, weights = [], biases = [], children = [1], sigmoid_value = 1,
        node_value = 0\<rparr>,
       1 := \<lparr>numInputs = 0, weights = [], biases = [], children = [2], sigmoid_value = 1,
        node_value = 0\<rparr>)))
   \<and> acyclic (edges ((\<lambda>r. \<lparr>numInputs = 0, weights = [], biases = [], children = [],
        sigmoid_value = 1, node_value = 0\<rparr>)
      (0 := \<lparr>numInputs = 0, weights = [], biases = [], children = [1], sigmoid_value = 1,
        node_value = 0\<rparr>,
       1 := \<lparr>numInputs = 0, weights = [], biases = [], children = [2], sigmoid_value = 1,
        node_value = 0\<rparr>)))
   \<and> (0, 2) \<in> (edges ((\<lambda>r. \<lparr>numInputs = 0, weights = [], biases = [], children = [],
        sigmoid_value = 1, node_value = 0\<rparr>)
      (0 := \<lparr>numInputs = 0, weights = [], biases = [], children = [1], sigmoid_value = 1,
        node_value = 0\<rparr>,
       1 := \<lparr>numInputs = 0, weights = [], biases = [], children = [2], sigmoid_value = 1,
        node_value = 0\<rparr>)))\<^sup>+
   \<and> isConnectedTo 2 ((\<lambda>r. \<lparr>numInputs = 0, weights = [], biases = [], children = [],
        sigmoid_value = 1, node_value = 0\<rparr>)
      (0 := \<lparr>numInputs = 0, weights = [], biases = [], children = [1], sigmoid_value = 1,
        node_value = 0\<rparr>,
       1 := \<lparr>numInputs = 0, weights = [], biases = [], children = [2], sigmoid_value = 1,
        node_value = 0\<rparr>)) 0 2 = Some True"
proof -
  let ?leaf = "\<lparr>numInputs = 0, weights = [], biases = [], children = [],
        sigmoid_value = 1, node_value = 0 :: real\<rparr>"
  let ?h = "(\<lambda>r. ?leaf)
      (0 := \<lparr>numInputs = 0, weights = [], biases = [], children = [1], sigmoid_value = 1,
        node_value = 0\<rparr>,
       1 := \<lparr>numInputs = 0, weights = [], biases = [], children = [2], sigmoid_value = 1,
        node_value = 0\<rparr>)"
  have E: "edges ?h = {(0, 1), (1, 2)}"
    by (auto simp: edges_def split: if_splits)
  have fin: "finite (edges ?h)"
    unfolding E by simp
  have "acyclic {(0 :: nat, 1 :: nat), (1, 2)}"
    by (rule acyclicI_order [where f = "\<lambda>x. 2 - x"]) auto
  then have acyc: "acyclic (edges ?h)"
    unfolding E .
  have child: "isInChildren ?h 0 1 \<and> isInChildren ?h 1 2"
    by (simp add: isInChildren_def)
  have reach: "(0, 2) \<in> (edges ?h)\<^sup>+"
    using isConnectedTo_iff_reachable [OF fin acyc, of 0 2] child by blast
  have run: "isConnectedTo 2 ?h 0 2 = Some True"
    by (simp add: numeral_2_eq_2 isInChildren_def)
  show ?thesis
    using fin acyc reach run by blast
qed

subsection \<open>The training step\<close>

lemma gradient_at_frame:
  "gradient_at h node nums goal rate = Inr h' \<Longrightarrow> r \<noteq> node \<Longrightarrow> h' r = h r"
  by (auto simp: gradient_at_def split: sum.splits)

lemma gradient_at_self:
  "gradient_at h node nums goal rate = Inr h' \<Longrightarrow> gradient (h node) nums goal rate = Inr (h' node)"
  by (auto simp: gradient_at_def split: sum.splits)

lemma spec_step_frame:
  "spec_step units inputs goal rate h = Inr h' \<Longrightarrow> r \<notin> set units \<Longrightarrow> h' r = h r"
proof (induction units arbitrary: h)
  case Nil
  then show ?case by simp
next
  case (Cons unit units)
  from Cons.prems(1) obtain h1 where
    h1: "gradient_at h unit inputs goal rate = Inr h1" and
    rest: "spec_step units inputs goal rate h1 = Inr h'"
    by (auto split: sum.splits)
  have "h' r = h1 r"
    using Cons.IH [OF rest] Cons.prems(2) by simp
  also have "h1 r = h r"
    using gradient_at_frame [OF h1] Cons.prems(2) by simp
  finally show ?case .
qed

lemma spec_step_each:
  "spec_step units inputs goal rate h = Inr h' \<Longrightarrow> distinct units \<Longrightarrow>
   \<forall>unit\<in>set units. gradient (h unit) inputs goal rate = Inr (h' unit)"
proof (induction units arbitrary: h)
  case Nil
  then show ?case by simp
next
  case (Cons unit units)
  from Cons.prems(1) obtain h1 where
    h1: "gradient_at h unit inputs goal rate = Inr h1" and
    rest: "spec_step units inputs goal rate h1 = Inr h'"
    by (auto split: sum.splits)
  have notin: "unit \<notin> set units" and dist: "distinct units"
    using Cons.prems(2) by simp_all
  have first: "gradient (h unit) inputs goal rate = Inr (h' unit)"
    using gradient_at_self [OF h1] spec_step_frame [OF rest notin] by simp
  have others: "\<forall>u\<in>set units. gradient (h u) inputs goal rate = Inr (h' u)"
  proof
    fix u assume u: "u \<in> set units"
    then have "u \<noteq> unit" using notin by auto
    then have "h1 u = h u" using gradient_at_frame [OF h1] by simp
    then show "gradient (h u) inputs goal rate = Inr (h' u)"
      using Cons.IH [OF rest dist] u by auto
  qed
  show ?case using first others by simp
qed

lemma stepGeneration_loop_spec:
  "nodes self = layer0 # others \<Longrightarrow> size self \<noteq> 0 \<Longrightarrow> \<forall>i\<in>set idxs. i < length layer0 \<Longrightarrow>
   stepGeneration_loop self inputs goal idxs h =
     spec_step (map (\<lambda>i. layer0 ! i) idxs) inputs (goal / real_of_int (size self)) (learnRate self) h"
proof (induction idxs arbitrary: h)
  case Nil
  then show ?case by simp
next
  case (Cons index rest)
  have "index < length layer0" using Cons.prems(3) by simp
  then show ?case
    using Cons.prems Cons.IH by (auto simp: Let_def split: sum.splits)
qed

lemma map_nth_upt_take: "n \<le> length xs \<Longrightarrow> map (\<lambda>i. xs ! i) [0..<n] = take n xs"
  by (rule nth_equalityI) auto

lemma stepGeneration_spec:
  assumes "nodes self = layer0 # others" and "size self \<noteq> 0"
    and "nat (nodesInLayer self) \<le> length layer0"
  shows "stepGeneration self inputs goal h =
     spec_step (take (nat (nodesInLayer self)) layer0) inputs (goal / real_of_int (size self))
       (learnRate self) h"
  using stepGeneration_loop_spec [OF assms(1,2), of "[0..<nat (nodesInLayer self)]" inputs goal h]
    assms(3) map_nth_upt_take [OF assms(3)]
  by (simp add: stepGeneration_def)

text \<open>
  C5. On a network whose table has a layer 0 with at least \<open>nodesInLayer\<close> units and
  whose size is not 0, \<open>stepGeneration\<close> calls, for the indices \<open>0 \<le> i < nodesInLayer\<close>
  in order, the gradient routine of the unit \<open>nodes[0][i]\<close> with the raw inputs, the goal
  \<open>goal / size\<close> and the learn rate of the trainer, where \<open>size\<close> is set to
  \<open>nodesInLayer * numLayers\<close> by the constructor. Every object of the heap other than
  those first-layer units is left as it is, so the weights and biases of the units of
  the other layers do not change; and when the first-layer units are pairwise different
  objects each of them ends as its own gradient call leaves it.
\<close>

theorem stepGeneration_first_layer_only:
  assumes "nodes self = layer0 # others" and "size self \<noteq> 0"
    and "nat (nodesInLayer self) \<le> length layer0"
  shows "stepGeneration self inputs goal h =
      spec_step (take (nat (nodesInLayer self)) layer0) inputs (goal / real_of_int (size self))
        (learnRate self) h
    \<and> (\<forall>h'. stepGeneration self inputs goal h = Inr h' \<longrightarrow>
          (\<forall>r. r \<notin> set (take (nat (nodesInLayer self)) layer0) \<longrightarrow> h' r = h r)
        \<and> (\<forall>layer\<in>set others. \<forall>r\<in>set layer.
              r \<notin> set (take (nat (nodesInLayer self)) layer0) \<longrightarrow>
              weights (h' r) = weights (h r) \<and> biases (h' r) = biases (h r))
        \<and> (distinct (take (nat (nodesInLayer self)) layer0) \<longrightarrow>
            (\<forall>i<nat (nodesInLayer self).
               gradient (h (layer0 ! i)) inputs (goal / real_of_int (size self)) (learnRate self) =
                 Inr (h' (layer0 ! i)))))
    \<and> size (GradientNetwork_init base nodesInLayer_arg numLayers maxIter_arg learnRate_arg) =
        nodesInLayer_arg * numLayers"
proof -
  let ?units = "take (nat (nodesInLayer self)) layer0"
  let ?g = "goal / real_of_int (size self)"
  have spec: "stepGeneration self inputs goal h = spec_step ?units inputs ?g (learnRate self) h"
    using assms by (rule stepGeneration_spec)
  have init: "size (GradientNetwork_init base nodesInLayer_arg numLayers maxIter_arg learnRate_arg) =
      nodesInLayer_arg * numLayers"
    by (simp add: GradientNetwork_init_def NeuralNetwork.extend_def)
  have after: "(\<forall>r. r \<notin> set ?units \<longrightarrow> h' r = h r)
      \<and> (\<forall>layer\<in>set others. \<forall>r\<in>set layer. r \<notin> set ?units \<longrightarrow>
            weights (h' r) = weights (h r) \<and> biases (h' r) = biases (h r))
      \<and> (distinct ?units \<longrightarrow>
          (\<forall>i<nat (nodesInLayer self).
             gradient (h (layer0 ! i)) inputs ?g (learnRate self) = Inr (h' (layer0 ! i))))"
    if run: "stepGeneration self inputs goal h = Inr h'" for h'
  proof -
    have run': "spec_step ?units inputs ?g (learnRate self) h = Inr h'"
      using run spec by simp
    have frame: "\<forall>r. r \<notin> set ?units \<longrightarrow> h' r = h r"
      using spec_step_frame [OF run'] by blast
    have each: "\<forall>i<nat (nodesInLayer self).
        gradient (h (layer0 ! i)) inputs ?g (learnRate self) = Inr (h' (layer0 ! i))"
      if dist: "distinct ?units"
    proof (intro allI impI)
      fix i assume i: "i < nat (nodesInLayer self)"
      then have "?units ! i = layer0 ! i" "i < length ?units"
        using assms(3) by simp_all
      then have "layer0 ! i \<in> set ?units"
        by (metis nth_mem)
      then show "gradient (h (layer0 ! i)) inputs ?g (learnRate self) = Inr (h' (layer0 ! i))"
        using spec_step_each [OF run' dist] by blast
    qed
    show ?thesis
      using frame each by simp
  qed
  show ?thesis
    using spec init after by blast
qed


theorem stepGeneration_first_layer_only_witness:
  "nodes \<lparr>nodes = [[0], [1]], nodesInLayer = 1, net_value = 0, maxIter = 10, learnRate = 1,
       size = 2\<rparr> = [0] # [[1]]
   \<and> size \<lparr>nodes = [[0], [1]], nodesInLayer = 1, net_value = 0, maxIter = 10, learnRate = 1,
       size = 2\<rparr> \<noteq> 0
   \<and> nat (nodesInLayer \<lparr>nodes = [[0], [1]], nodesInLayer = 1, net_value = 0, maxIter = 10,
       learnRate = 1, size = 2\<rparr>) \<le> length [0 :: nat]
   \<and> (\<exists>h'. stepGeneration \<lparr>nodes = [[0], [1]], nodesInLayer = 1, net_value = 0, maxIter = 10,
         learnRate = 1, size = 2\<rparr> [1] 0
         (\<lambda>r. \<lparr>numInputs = 1, weights = [0], biases = [0], children = [], sigmoid_value = 1,
               node_value = 0\<rparr>) = Inr h'
       \<and> weights (h' 0) = [- 1 / 2] \<and> biases (h' 0) = [- 1 / 2]
       \<and> weights (h' 1) = [0] \<and> biases (h' 1) = [0])"
proof -
  let ?self = "\<lparr>nodes = [[0], [1]], nodesInLayer = 1, net_value = 0, maxIter = 10,
       learnRate = 1, size = 2\<rparr>"
  let ?n = "\<lparr>numInputs = 1, weights = [0], biases = [0], children = [], sigmoid_value = 1,
       node_value = 0 :: real\<rparr>"
  let ?h = "\<lambda>r :: ref. ?n"
  have a1: "nodes ?self = [0] # [[1]]" by simp
  have a2: "size ?self \<noteq> 0" by simp
  have a3: "nat (nodesInLayer ?self) \<le> length [0 :: nat]" by simp
  have inv: "node_inv ?n" by (simp add: node_inv_def)
  have g: "gradient ?n [1] 0 1 = Inr (?n\<lparr>weights := [- 1 / 2], biases := [- 1 / 2]\<rparr>)"
    using gradient_result [OF inv, of "[1]" 0 1]
    by (simp add: weights_after_def biases_after_def spec_dW_def spec_dB_def power2_eq_square)
  have ga: "gradient_at ?h 0 [1] 0 1 =
      Inr (?h(0 := ?n\<lparr>weights := [- 1 / 2], biases := [- 1 / 2]\<rparr>))"
    using g by (simp add: gradient_at_def)
  have units: "take (nat (nodesInLayer ?self)) [0 :: nat] = [0]" by simp
  have "stepGeneration ?self [1] 0 ?h =
      spec_step (take (nat (nodesInLayer ?self)) [0]) [1] (0 / real_of_int (size ?self))
        (learnRate ?self) ?h"
    using stepGeneration_first_layer_only [OF a1 a2 a3, of "[1]" 0 ?h] by (rule conjunct1)
  also have "\<dots> = spec_step [0] [1] 0 1 ?h"
    unfolding units by simp
  also have "\<dots> = Inr (?h(0 := ?n\<lparr>weights := [- 1 / 2], biases := [- 1 / 2]\<rparr>))"
    using ga by simp
  finally have run: "stepGeneration ?self [1] 0 ?h =
      Inr (?h(0 := ?n\<lparr>weights := [- 1 / 2], biases := [- 1 / 2]\<rparr>))" .
  have "\<exists>h'. stepGeneration ?self [1] 0 ?h = Inr h'
       \<and> weights (h' 0) = [- 1 / 2] \<and> biases (h' 0) = [- 1 / 2]
       \<and> weights (h' 1) = [0] \<and> biases (h' 1) = [0]"
    unfolding run by simp
  then show ?thesis
    using a1 a2 a3 by blast
qed

subsection \<open>Training until tolerance\<close>

lemma evolve_loop_stop:
  "iterationCounter < MAXIMUM_ITERATION \<Longrightarrow> \<bar>net_value self - goal\<bar> < \<bar>tolerance * goal\<bar> \<Longrightarrow>
   evolve_loop call inputs goal tolerance iterationCounter self h out =
     Inr (iterationCounter, self, h, out @ [PrintValue iterationCounter (net_value self)])"
  by (subst evolve_loop.simps) simp

lemma evolve_loop_cap:
  "\<not> iterationCounter < MAXIMUM_ITERATION \<Longrightarrow>
   evolve_loop call inputs goal tolerance iterationCounter self h out =
     Inr (iterationCounter, self, h, out)"
  by (subst evolve_loop.simps) simp

lemma evolve_loop_round:
  "iterationCounter < MAXIMUM_ITERATION \<Longrightarrow> \<not> \<bar>net_value self - goal\<bar> < \<bar>tolerance * goal\<bar> \<Longrightarrow>
   call self inputs h = Inr (self1, h1) \<Longrightarrow> stepGeneration self1 inputs goal h1 = Inr h2 \<Longrightarrow>
   evolve_loop call inputs goal tolerance iterationCounter self h out =
     evolve_loop call inputs goal tolerance (iterationCounter + 1) self1 h2
       (if iterationCounter mod 5 = 0
        then out @ [PrintValue iterationCounter (net_value self1)] else out)"
  by (subst evolve_loop.simps) (simp add: Let_def)

lemma evolve_loop_bounds:
  "evolve_loop call inputs goal tolerance iterationCounter self h out = Inr (n, self', h', out') \<Longrightarrow>
   iterationCounter \<le> MAXIMUM_ITERATION \<Longrightarrow>
   iterationCounter \<le> n \<and> n \<le> MAXIMUM_ITERATION \<and>
   (n < MAXIMUM_ITERATION \<longrightarrow> \<bar>net_value self' - goal\<bar> < \<bar>tolerance * goal\<bar>)"
proof (induction call inputs goal tolerance iterationCounter self h out rule: evolve_loop.induct)
  case (1 call inputs goal tolerance iterationCounter self h out)
  show ?case
  proof (cases "iterationCounter < MAXIMUM_ITERATION")
    case False
    then show ?thesis
      using "1.prems" by (simp add: evolve_loop_cap)
  next
    case lt: True
    show ?thesis
    proof (cases "\<bar>net_value self - goal\<bar> < \<bar>tolerance * goal\<bar>")
      case True
      then show ?thesis
        using "1.prems" lt by (simp add: evolve_loop_stop)
    next
      case False
      from "1.prems"(1) lt False obtain self1 h1 h2 where
        fwd: "call self inputs h = Inr (self1, h1)" and
        step: "stepGeneration self1 inputs goal h1 = Inr h2"
        by (subst (asm) evolve_loop.simps) (auto simp: Let_def split: sum.splits)
      let ?out1 = "if iterationCounter mod 5 = 0
          then out @ [PrintValue iterationCounter (net_value self1)] else out"
      have next_run: "evolve_loop call inputs goal tolerance (iterationCounter + 1) self1 h2 ?out1 =
          Inr (n, self', h', out')"
        using "1.prems"(1)
          evolve_loop_round [of iterationCounter self goal tolerance call inputs h self1 h1 h2 out]
          lt False fwd step by simp
      have "iterationCounter + 1 \<le> n \<and> n \<le> MAXIMUM_ITERATION \<and>
          (n < MAXIMUM_ITERATION \<longrightarrow> \<bar>net_value self' - goal\<bar> < \<bar>tolerance * goal\<bar>)"
        using "1.IH" [OF lt False fwd refl refl step next_run] lt by simp
      then show ?thesis by simp
    qed
  qed
qed


text \<open>
  C4. \<open>evolveTillTolerance\<close> replaces a tolerance that is not positive by 0.1; it ends
  with an iteration counter of at most 1000, one round of forward pass and training
  step per count; at the top of a round, when \<open>|value - goal| < |tolerance * goal|\<close>, the
  loop stops at once, whatever the forward pass would do, with the network and the heap
  as they are; a run that ends below 1000 ends in a state that meets the criterion; and
  when the value the network already has meets the criterion, the call ends at
  iteration 0 with the network and every unit unchanged.
\<close>

theorem evolveTillTolerance_stops:
  "(tolerance \<le> 0 \<longrightarrow>
      evolveTillTolerance call self inputs goal tolerance h =
      evolveTillTolerance call self inputs goal 0.1 h)
   \<and> (\<forall>n self' h' out.
        evolveTillTolerance call self inputs goal tolerance h = Inr (n, self', h', out) \<longrightarrow>
        0 \<le> n \<and> n \<le> 1000 \<and>
        (n < 1000 \<longrightarrow>
           \<bar>net_value self' - goal\<bar> < \<bar>(if tolerance \<le> 0 then 0.1 else tolerance) * goal\<bar>))
   \<and> (\<forall>k out tol. k < 1000 \<and> \<bar>net_value self - goal\<bar> < \<bar>tol * goal\<bar> \<longrightarrow>
        evolve_loop call inputs goal tol k self h out =
          Inr (k, self, h, out @ [PrintValue k (net_value self)]))
   \<and> (\<bar>net_value self - goal\<bar> < \<bar>(if tolerance \<le> 0 then 0.1 else tolerance) * goal\<bar> \<longrightarrow>
        evolveTillTolerance call self inputs goal tolerance h =
          Inr (0, self, h,
            [PrintValue 0 (net_value self),
             PrintReached \<bar>(net_value self - goal) * 100 / goal\<bar> 0]))"
proof -
  let ?tol = "if tolerance \<le> 0 then 0.1 else tolerance"
  have default: "tolerance \<le> 0 \<longrightarrow>
      evolveTillTolerance call self inputs goal tolerance h =
      evolveTillTolerance call self inputs goal 0.1 h"
    by (simp add: evolveTillTolerance_def)
  have bounded: "0 \<le> n \<and> n \<le> 1000 \<and>
      (n < 1000 \<longrightarrow> \<bar>net_value self' - goal\<bar> < \<bar>?tol * goal\<bar>)"
    if run: "evolveTillTolerance call self inputs goal tolerance h = Inr (n, self', h', out)"
    for n self' h' out
  proof -
    obtain out0 where loop: "evolve_loop call inputs goal ?tol 0 self h [] = Inr (n, self', h', out0)"
      using run by (auto simp: evolveTillTolerance_def Let_def split: sum.splits if_splits)
    have "0 \<le> n \<and> n \<le> MAXIMUM_ITERATION \<and>
        (n < MAXIMUM_ITERATION \<longrightarrow> \<bar>net_value self' - goal\<bar> < \<bar>?tol * goal\<bar>)"
      using loop by (rule evolve_loop_bounds) (simp add: MAXIMUM_ITERATION_def)
    then show ?thesis
      by (simp add: MAXIMUM_ITERATION_def)
  qed
  have stop: "\<forall>k out tol. k < 1000 \<and> \<bar>net_value self - goal\<bar> < \<bar>tol * goal\<bar> \<longrightarrow>
      evolve_loop call inputs goal tol k self h out =
        Inr (k, self, h, out @ [PrintValue k (net_value self)])"
    by (simp add: evolve_loop_stop MAXIMUM_ITERATION_def)
  have first: "evolveTillTolerance call self inputs goal tolerance h =
      Inr (0, self, h,
        [PrintValue 0 (net_value self), PrintReached \<bar>(net_value self - goal) * 100 / goal\<bar> 0])"
    if conv: "\<bar>net_value self - goal\<bar> < \<bar>?tol * goal\<bar>"
  proof -
    have goal: "goal \<noteq> 0"
      using conv by auto
    have loop: "evolve_loop call inputs goal ?tol 0 self h [] =
        Inr (0, self, h, [] @ [PrintValue 0 (net_value self)])"
      using conv by (intro evolve_loop_stop) (simp_all add: MAXIMUM_ITERATION_def)
    show ?thesis
      unfolding evolveTillTolerance_def Let_def loop using goal by simp
  qed
  show ?thesis
    using default bounded stop first by blast
qed

theorem evolveTillTolerance_stops_witness:
  "(0 :: real) \<le> 0
   \<and> \<bar>net_value \<lparr>nodes = [[0]], nodesInLayer = 1, net_value = 1, maxIter = 10, learnRate = 1,
        size = 1\<rparr> - 1\<bar> < \<bar>(if (0 :: real) \<le> 0 then 0.1 else 0) * 1\<bar>
   \<and> evolveTillTolerance (\<lambda>self inputs h. Inl ValueError)
        \<lparr>nodes = [[0]], nodesInLayer = 1, net_value = 1, maxIter = 10, learnRate = 1, size = 1\<rparr>
        [1] 1 0
        (\<lambda>r. \<lparr>numInputs = 1, weights = [0], biases = [0], children = [], sigmoid_value = 1,
              node_value = 0\<rparr>) =
      Inr (0,
        \<lparr>nodes = [[0]], nodesInLayer = 1, net_value = 1, maxIter = 10, learnRate = 1, size = 1\<rparr>,
        (\<lambda>r. \<lparr>numInputs = 1, weights = [0], biases = [0], children = [], sigmoid_value = 1,
              node_value = 0\<rparr>),
        [PrintValue 0 1, PrintReached 0 0])
   \<and> (0 :: int) \<le> 1000"
proof -
  let ?self = "\<lparr>nodes = [[0]], nodesInLayer = 1, net_value = 1, maxIter = 10, learnRate = 1,
        size = 1\<rparr>"
  let ?h = "\<lambda>r :: ref. \<lparr>numInputs = 1, weights = [0], biases = [0], children = [],
        sigmoid_value = 1, node_value = 0 :: real\<rparr>"
  let ?call = "\<lambda>(self :: GradientNetwork) (inputs :: real list) (h :: heap).
        Inl ValueError :: error + (GradientNetwork \<times> heap)"
  have conv: "\<bar>net_value ?self - 1\<bar> < \<bar>(if (0 :: real) \<le> 0 then 0.1 else 0) * 1\<bar>"
    by simp
  have run: "evolveTillTolerance ?call ?self [1] 1 0 ?h =
      Inr (0, ?self, ?h,
        [PrintValue 0 (net_value ?self), PrintReached \<bar>(net_value ?self - 1) * 100 / 1\<bar> 0])"
    using evolveTillTolerance_stops [of 0 ?call ?self "[1]" 1 ?h] conv by blast
  have out: "[PrintValue 0 (net_value ?self), PrintReached \<bar>(net_value ?self - 1) * 100 / 1\<bar> 0] =
      [PrintValue 0 1, PrintReached 0 0]"
    by simp
  show ?thesis
    using conv run [unfolded out] by simp
qed

end
